theory Spec2Isabelle
  imports Complex_Main
begin

section \<open>Osher's solution of the scalar Riemann problem\<close>

text \<open>
  The notebook \<^verbatim>\<open>Nonconvex_scalar.ipynb\<close> defines two functions:
  \<open>osher_solution\<close>, which returns the evaluator \<open>qtilde\<close> of the similarity solution,
  and \<open>nonconvex_solutions\<close>, which samples it and builds the characteristic trace. Both
  work on numpy arrays of doubles.

  An array is a list. A double is a value of the type \<open>fl\<close>: a finite number, an infinity
  or NaN, and every arithmetic operation of the code is the IEEE operation, which rounds the
  exact result to the nearest double, ties to even, and overflows to an infinity. The two
  zeros are one value: they compare equal, and a quotient by zero is taken with the
  divisor \<open>+0\<close>. The flux is any function on doubles, applied to an array entry by
  entry. An exception is a value of the type \<open>error\<close>.
\<close>

subsection \<open>Doubles\<close>

datatype fl = Fin real | PInf | NInf | NaN

text \<open>
  Rounding to the nearest integer, ties to the even one, and rounding of a real number to
  binary64: 53 significant bits, the least exponent \<open>-1022\<close> (below it the spacing stays
  \<open>2^-1074\<close>), and an infinity from \<open>2^1024 - 2^970\<close> on, half a spacing above the
  largest double.
\<close>

definition rne :: "real \<Rightarrow> int" where
  "rne m =
     (let n = \<lfloor>m\<rfloor>; r = m - of_int n
      in if r < 1/2 then n else if 1/2 < r then n + 1 else if even n then n else n + 1)"

definition ulp :: "real \<Rightarrow> real" where
  "ulp x = 2 powr of_int (max \<lfloor>log 2 \<bar>x\<bar>\<rfloor> (- 1022) - 52)"

definition rnd :: "real \<Rightarrow> fl" where
  "rnd x =
     (if x = 0 then Fin 0
      else if 2 ^ 1024 - 2 ^ 970 \<le> \<bar>x\<bar> then (if 0 < x then PInf else NInf)
      else Fin (of_int (rne (x / ulp x)) * ulp x))"

text \<open>The IEEE operations and comparisons; a comparison with NaN is false.\<close>

fun fl_neg :: "fl \<Rightarrow> fl" where
  "fl_neg (Fin a) = Fin (- a)"
| "fl_neg PInf = NInf"
| "fl_neg NInf = PInf"
| "fl_neg NaN = NaN"

fun fl_add :: "fl \<Rightarrow> fl \<Rightarrow> fl" where
  "fl_add NaN _ = NaN"
| "fl_add _ NaN = NaN"
| "fl_add (Fin a) (Fin b) = rnd (a + b)"
| "fl_add PInf NInf = NaN"
| "fl_add NInf PInf = NaN"
| "fl_add PInf _ = PInf"
| "fl_add NInf _ = NInf"
| "fl_add _ PInf = PInf"
| "fl_add _ NInf = NInf"

definition fl_sub :: "fl \<Rightarrow> fl \<Rightarrow> fl" where
  "fl_sub a b = fl_add a (fl_neg b)"

fun fl_mul :: "fl \<Rightarrow> fl \<Rightarrow> fl" where
  "fl_mul NaN _ = NaN"
| "fl_mul _ NaN = NaN"
| "fl_mul (Fin a) (Fin b) = rnd (a * b)"
| "fl_mul (Fin a) PInf = (if a = 0 then NaN else if 0 < a then PInf else NInf)"
| "fl_mul (Fin a) NInf = (if a = 0 then NaN else if 0 < a then NInf else PInf)"
| "fl_mul PInf (Fin b) = (if b = 0 then NaN else if 0 < b then PInf else NInf)"
| "fl_mul NInf (Fin b) = (if b = 0 then NaN else if 0 < b then NInf else PInf)"
| "fl_mul PInf PInf = PInf"
| "fl_mul PInf NInf = NInf"
| "fl_mul NInf PInf = NInf"
| "fl_mul NInf NInf = PInf"

fun fl_div :: "fl \<Rightarrow> fl \<Rightarrow> fl" where
  "fl_div NaN _ = NaN"
| "fl_div _ NaN = NaN"
| "fl_div (Fin a) (Fin b) =
     (if b \<noteq> 0 then rnd (a / b)
      else if a = 0 then NaN
      else if 0 < a then PInf else NInf)"
| "fl_div (Fin a) _ = Fin 0"
| "fl_div PInf (Fin b) = (if 0 \<le> b then PInf else NInf)"
| "fl_div NInf (Fin b) = (if 0 \<le> b then NInf else PInf)"
| "fl_div _ _ = NaN"

fun fl_less :: "fl \<Rightarrow> fl \<Rightarrow> bool" where
  "fl_less NaN _ = False"
| "fl_less _ NaN = False"
| "fl_less (Fin a) (Fin b) = (a < b)"
| "fl_less NInf NInf = False"
| "fl_less NInf _ = True"
| "fl_less _ NInf = False"
| "fl_less PInf _ = False"
| "fl_less _ PInf = True"

fun fl_le :: "fl \<Rightarrow> fl \<Rightarrow> bool" where
  "fl_le NaN _ = False"
| "fl_le _ NaN = False"
| "fl_le (Fin a) (Fin b) = (a \<le> b)"
| "fl_le NInf _ = True"
| "fl_le _ PInf = True"
| "fl_le _ _ = False"

text \<open>
  Python's builtin \<open>min(a, b)\<close> and \<open>max(a, b)\<close> keep the first argument unless the
  second compares strictly below (above) it.
\<close>

definition py_min :: "fl \<Rightarrow> fl \<Rightarrow> fl" where
  "py_min a b = (if fl_less b a then b else a)"

definition py_max :: "fl \<Rightarrow> fl \<Rightarrow> fl" where
  "py_max a b = (if fl_less a b then b else a)"

subsection \<open>Errors and numpy primitives\<close>

datatype error = TypeError | ValueError

text \<open>
  \<open>numpy.linspace(start, stop, num)\<close> with the endpoint included, statement by
  statement: \<open>div = num - 1\<close> (here \<open>dv\<close>), \<open>y = arange(0, num)\<close>,
  \<open>delta = stop - start\<close>; for
  \<open>div > 0\<close> the step is \<open>delta / div\<close> and \<open>y\<close> becomes \<open>y * step\<close>, or
  \<open>(y / div) * delta\<close> when the step is zero; otherwise \<open>y * delta\<close>; then
  \<open>y += start\<close>, and for \<open>num > 1\<close> the last entry is set to \<open>stop\<close> itself.
\<close>

definition linspace :: "fl \<Rightarrow> fl \<Rightarrow> nat \<Rightarrow> fl list" where
  "linspace start stop num =
     (let dv = num - 1;
          y0 = map (\<lambda>i. Fin (real i)) [0..<num];
          delta = fl_sub stop start;
          y1 = (if 0 < dv
                then (let step = fl_div delta (Fin (real dv))
                      in if step = Fin 0
                         then map (\<lambda>v. fl_mul (fl_div v (Fin (real dv))) delta) y0
                         else map (\<lambda>v. fl_mul v step) y0)
                else map (\<lambda>v. fl_mul v delta) y0);
          y2 = map (\<lambda>v. fl_add v start) y1
      in if 1 < num then y2[num - 1 := stop] else y2)"

text \<open>
  The same call on arguments that may be \<open>None\<close>: the arithmetic on \<open>None\<close> inside
  \<open>linspace\<close> raises \<open>TypeError\<close>.
\<close>

definition np_linspace :: "fl option \<Rightarrow> fl option \<Rightarrow> nat \<Rightarrow> error + fl list" where
  "np_linspace start stop num =
     (case start of
        None \<Rightarrow> Inl TypeError
      | Some a \<Rightarrow> (case stop of None \<Rightarrow> Inl TypeError | Some b \<Rightarrow> Inr (linspace a b num)))"

text \<open>
  \<open>numpy.argmin\<close> scans the array once. A first entry that is NaN ends the scan at index
  0. Otherwise the scan keeps the least entry so far and its index, takes the entry \<open>x\<close>
  in place of the kept \<open>m\<close> when \<open>x >= m\<close> is false, and ends at once when that entry
  is NaN. \<open>numpy.argmax\<close> is the same scan with \<open>x <= m\<close>. Both raise \<open>ValueError\<close> on
  an empty array.
\<close>

fun argmin_from :: "nat \<Rightarrow> fl \<Rightarrow> nat \<Rightarrow> fl list \<Rightarrow> nat" where
  "argmin_from b m i [] = b"
| "argmin_from b m i (x # xs) =
     (if \<not> fl_le m x
      then (if x = NaN then i else argmin_from i x (Suc i) xs)
      else argmin_from b m (Suc i) xs)"

fun argmin :: "fl list \<Rightarrow> error + nat" where
  "argmin [] = Inl ValueError"
| "argmin (x # xs) = Inr (if x = NaN then 0 else argmin_from 0 x 1 xs)"

fun argmax_from :: "nat \<Rightarrow> fl \<Rightarrow> nat \<Rightarrow> fl list \<Rightarrow> nat" where
  "argmax_from b m i [] = b"
| "argmax_from b m i (x # xs) =
     (if \<not> fl_le x m
      then (if x = NaN then i else argmax_from i x (Suc i) xs)
      else argmax_from b m (Suc i) xs)"

fun argmax :: "fl list \<Rightarrow> error + nat" where
  "argmax [] = Inl ValueError"
| "argmax (x # xs) = Inr (if x = NaN then 0 else argmax_from 0 x 1 xs)"

text \<open>\<open>numpy.diff\<close>: the differences \<open>a[i+1] - a[i]\<close> of neighbours.\<close>

definition diff :: "fl list \<Rightarrow> fl list" where
  "diff a = map2 (\<lambda>lo hi. fl_sub hi lo) (butlast a) (tl a)"

text \<open>
  The array methods \<open>.min()\<close> and \<open>.max()\<close>: NaN as soon as one entry is NaN,
  \<open>ValueError\<close> on an empty array.
\<close>

definition np_minimum :: "fl \<Rightarrow> fl \<Rightarrow> fl" where
  "np_minimum a b = (if a = NaN \<or> b = NaN then NaN else if fl_less b a then b else a)"

definition np_maximum :: "fl \<Rightarrow> fl \<Rightarrow> fl" where
  "np_maximum a b = (if a = NaN \<or> b = NaN then NaN else if fl_less a b then b else a)"

fun amin :: "fl list \<Rightarrow> error + fl" where
  "amin [] = Inl ValueError"
| "amin (x # xs) = Inr (foldl np_minimum x xs)"

fun amax :: "fl list \<Rightarrow> error + fl" where
  "amax [] = Inl ValueError"
| "amax (x # xs) = Inr (foldl np_maximum x xs)"

subsection \<open>\<open>osher_solution\<close>\<close>

text \<open>
  The state grid \<open>qv = linspace(q_min, q_max, 1000)\<close> with \<open>q_min = min(q_left, q_right)\<close>
  and \<open>q_max = max(q_left, q_right)\<close>, which both functions build from the Riemann data.
\<close>

definition qv :: "fl \<Rightarrow> fl \<Rightarrow> fl list" where
  "qv q_left q_right = linspace (py_min q_left q_right) (py_max q_left q_right) 1000"

text \<open>
  The array \<open>f(qv) - xij*qv\<close> that the scans receive, and the two closures \<open>qtilde\<close>.
  The loop over \<open>enumerate(xi)\<close> is the recursion over the list: for each \<open>xij\<close> the
  index \<open>i = argmin(f(qv) - xij*qv)\<close> (or \<open>argmax\<close>) and the entry \<open>Q[j] = qv[i]\<close>. The
  index that \<open>argmin\<close> and \<open>argmax\<close> return is always in range (lemmas
  \<open>argmin_less\<close> and \<open>argmax_less\<close> below).
\<close>

definition objective :: "(fl \<Rightarrow> fl) \<Rightarrow> fl list \<Rightarrow> fl \<Rightarrow> fl list" where
  "objective f qs xij = map2 fl_sub (map f qs) (map (fl_mul xij) qs)"

fun qtilde_min :: "(fl \<Rightarrow> fl) \<Rightarrow> fl list \<Rightarrow> fl list \<Rightarrow> error + fl list" where
  "qtilde_min f qs [] = Inr []"
| "qtilde_min f qs (xij # xi) =
     (case argmin (objective f qs xij) of
        Inl e \<Rightarrow> Inl e
      | Inr i \<Rightarrow> (case qtilde_min f qs xi of
                   Inl e \<Rightarrow> Inl e
                 | Inr Q \<Rightarrow> Inr (qs ! i # Q)))"

fun qtilde_max :: "(fl \<Rightarrow> fl) \<Rightarrow> fl list \<Rightarrow> fl list \<Rightarrow> error + fl list" where
  "qtilde_max f qs [] = Inr []"
| "qtilde_max f qs (xij # xi) =
     (case argmax (objective f qs xij) of
        Inl e \<Rightarrow> Inl e
      | Inr i \<Rightarrow> (case qtilde_max f qs xi of
                   Inl e \<Rightarrow> Inl e
                 | Inr Q \<Rightarrow> Inr (qs ! i # Q)))"

definition osher_solution ::
  "(fl \<Rightarrow> fl) \<Rightarrow> fl \<Rightarrow> fl \<Rightarrow> (fl list \<Rightarrow> error + fl list)" where
  "osher_solution f q_left q_right =
     (if fl_le q_left q_right then qtilde_min f (qv q_left q_right)
      else qtilde_max f (qv q_left q_right))"

subsection \<open>\<open>nonconvex_solutions\<close>\<close>

text \<open>
  The statements of the function in their order: the sample \<open>xi\<close> of the similarity
  variable is taken from the arguments \<open>xi_left\<close> and \<open>xi_right\<close> as they were passed;
  the finite differences \<open>dfdq\<close> and the two \<open>if ... is None\<close> statements come after it.
  The result is the tuple \<open>(xi, q, q_char, xi_char)\<close>.
\<close>

definition dfdq :: "(fl \<Rightarrow> fl) \<Rightarrow> fl list \<Rightarrow> fl list" where
  "dfdq f qs = map (\<lambda>d. fl_div d (fl_sub (qs ! 1) (qs ! 0))) (diff (map f qs))"

definition q_char :: "fl list \<Rightarrow> fl \<Rightarrow> fl \<Rightarrow> fl list" where
  "q_char qs q_min q_max =
     q_min # map2 (\<lambda>a b. fl_mul (Fin (1/2)) (fl_add a b)) (butlast qs) (tl qs) @ [q_max]"

definition nonconvex_solutions ::
  "(fl \<Rightarrow> fl) \<Rightarrow> fl \<Rightarrow> fl \<Rightarrow> fl option \<Rightarrow> fl option
     \<Rightarrow> error + (fl list \<times> fl list \<times> fl list \<times> fl list)" where
  "nonconvex_solutions f q_left q_right xi_left xi_right =
     (let qtilde = osher_solution f q_left q_right;
          q_min = py_min q_left q_right;
          q_max = py_max q_left q_right;
          qs = linspace q_min q_max 1000
      in case np_linspace xi_left xi_right 1000 of
           Inl e \<Rightarrow> Inl e
         | Inr xi \<Rightarrow>
      (case qtilde xi of
           Inl e \<Rightarrow> Inl e
         | Inr q \<Rightarrow>
      (let ds = dfdq f qs
       in case amin ds of
           Inl e \<Rightarrow> Inl e
         | Inr dfdq_min \<Rightarrow>
      (case amax ds of
           Inl e \<Rightarrow> Inl e
         | Inr dfdq_max \<Rightarrow>
      (let dfdq_range = fl_sub dfdq_max dfdq_min;
           xi_left' = (case xi_left of
                         None \<Rightarrow> fl_sub (py_min (Fin 0) dfdq_min)
                                   (fl_mul (rnd (1/10)) dfdq_range)
                       | Some a \<Rightarrow> a);
           xi_right' = (case xi_right of
                          None \<Rightarrow> fl_add (py_max (Fin 0) dfdq_max)
                                    (fl_mul (rnd (1/10)) dfdq_range)
                        | Some b \<Rightarrow> b);
           xi_min = (if fl_le q_left q_right then xi_left' else xi_right');
           xi_max = (if fl_le q_left q_right then xi_right' else xi_left')
       in Inr (xi, q, q_char qs q_min q_max, xi_min # ds @ [xi_max]))))))"

text \<open>The flux of the notebook's first example, \<open>f = lambda q: q*(1-q)\<close>.\<close>

definition f_traffic :: "fl \<Rightarrow> fl" where
  "f_traffic q = fl_mul q (fl_sub (Fin 1) q)"

text \<open>
  The zero flux, \<open>f = lambda q: 0*q\<close>, the double \<open>2^1023\<close>, and the least positive
  double \<open>2^-1074\<close>.
\<close>

definition f_zero :: "fl \<Rightarrow> fl" where
  "f_zero q = fl_mul (Fin 0) q"

definition huge :: real where
  "huge = 2 ^ 1023"


subsection \<open>What the scans select\<close>

text \<open>
  The index of the first minimum (maximum) of an array: the entry there compares below
  (above) or equal to every entry, and strictly below (above) every earlier one.
\<close>

definition first_min :: "fl list \<Rightarrow> nat \<Rightarrow> bool" where
  "first_min zs r \<longleftrightarrow>
     r < length zs \<and> (\<forall>k<length zs. fl_le (zs ! r) (zs ! k)) \<and> (\<forall>k<r. fl_less (zs ! r) (zs ! k))"

definition first_max :: "fl list \<Rightarrow> nat \<Rightarrow> bool" where
  "first_max zs r \<longleftrightarrow>
     r < length zs \<and> (\<forall>k<length zs. fl_le (zs ! k) (zs ! r)) \<and> (\<forall>k<r. fl_less (zs ! k) (zs ! r))"

section \<open>Rounding\<close>

text \<open>
  A number \<open>n * 2^k\<close> with \<open>|n| < 2^53\<close> and \<open>k \<ge> -1074\<close> below the overflow
  threshold is a double: rounding leaves it as it is.
\<close>

lemma rnd_0: "rnd 0 = Fin 0"
  by (simp add: rnd_def)

lemma rnd_not_NaN: "rnd x \<noteq> NaN"
  by (simp add: rnd_def)

lemma rnd_overflow: "2 ^ 1024 - 2 ^ 970 \<le> x \<Longrightarrow> rnd x = PInf"
proof -
  assume a: "2 ^ 1024 - 2 ^ 970 \<le> x"
  have "(0::real) < 2 ^ 1024 - 2 ^ 970" by simp
  with a have "0 < x" by linarith
  with a show ?thesis by (simp add: rnd_def)
qed

lemma rne_of_int: "rne (of_int z) = z"
  by (simp add: rne_def)

lemma rnd_exact:
  assumes x: "x = of_int n * 2 powr of_int k"
    and n: "\<bar>n\<bar> < 2 ^ 53" and k: "- 1074 \<le> k"
    and fin: "\<bar>x\<bar> < 2 ^ 1024 - 2 ^ 970"
  shows "rnd x = Fin x"
proof (cases "x = 0")
  case True
  then show ?thesis by (simp add: rnd_0)
next
  case False
  define e where "e = \<lfloor>log 2 \<bar>x\<bar>\<rfloor>"
  define p where "p = max e (- 1022) - 52"
  from False have pos: "0 < \<bar>x\<bar>" by simp
  from e_def have "2 powr of_int e \<le> \<bar>x\<bar>"
    using floor_log_eq_powr_iff[OF pos, of 2 e] by simp
  also have "\<bar>x\<bar> = of_int \<bar>n\<bar> * 2 powr of_int k"
    by (simp add: x abs_mult)
  also have "\<dots> < 2 ^ 53 * 2 powr of_int k"
  proof -
    from n have "(of_int \<bar>n\<bar> :: real) < of_int (2 ^ 53)" by (simp only: of_int_less_iff)
    then have "(of_int \<bar>n\<bar> :: real) < 2 ^ 53" by simp
    then show ?thesis by (intro mult_strict_right_mono) simp_all
  qed
  also have "\<dots> = 2 powr of_int (53 + k)"
    by (simp add: powr_add powr_numeral)
  finally have "of_int e < (of_int (53 + k) :: real)"
    by (simp only: powr_less_cancel_iff) 
  then have "e < 53 + k" by linarith
  with k have pk: "p \<le> k" by (simp add: p_def)
  have u: "ulp x = 2 powr of_int p"
    by (simp add: ulp_def p_def e_def)
  have "x / ulp x = of_int n * 2 powr (of_int k - of_int p)"
    by (subst u) (simp add: x powr_diff)
  also have "of_int k - of_int p = (of_nat (nat (k - p)) :: real)"
    using pk by simp
  also have "2 powr (of_nat (nat (k - p)) :: real) = 2 ^ nat (k - p)"
    by (simp add: powr_realpow)
  finally have q: "x / ulp x = of_int (n * 2 ^ nat (k - p))"
    by simp
  have "of_int (rne (x / ulp x)) * ulp x = (x / ulp x) * ulp x"
    unfolding q rne_of_int ..
  also have "\<dots> = x" by (simp add: u)
  finally show ?thesis using False fin by (simp add: rnd_def)
qed

lemma rnd_of_nat: "n < 2 ^ 53 \<Longrightarrow> rnd (real n) = Fin (real n)"
proof -
  assume n: "n < 2 ^ 53"
  have "real n < 2 ^ 53" using n by (metis of_nat_less_iff of_nat_numeral of_nat_power)
  also have "\<dots> < (2 ^ 1024 - 2 ^ 970 :: real)" by simp
  finally have fin: "\<bar>real n\<bar> < 2 ^ 1024 - 2 ^ 970" by simp
  have "int n < 2 ^ 53" using n by (metis of_nat_less_iff of_nat_numeral of_nat_power)
  then show ?thesis
    using rnd_exact[of "real n" "int n" 0] fin by simp
qed

text \<open>
  Rounding does round: \<open>2^53 + 1\<close> and \<open>2^53 + 3\<close> lie half way between two doubles
  and go to the one with the even significand.
\<close>

lemma rnd_ties_to_even:
  "rnd (2 ^ 53 + 1) = Fin (2 ^ 53)" "rnd (2 ^ 53 + 3) = Fin (2 ^ 53 + 4)"
proof -
  have l1: "\<lfloor>log 2 \<bar>2 ^ 53 + 1 :: real\<bar>\<rfloor> = 53"
    by (subst floor_log_eq_powr_iff) (simp_all add: powr_numeral)
  have l3: "\<lfloor>log 2 \<bar>2 ^ 53 + 3 :: real\<bar>\<rfloor> = 53"
    by (subst floor_log_eq_powr_iff) (simp_all add: powr_numeral)
  have u1: "ulp (2 ^ 53 + 1) = 2" unfolding ulp_def l1 by simp
  have u3: "ulp (2 ^ 53 + 3) = 2" unfolding ulp_def l3 by simp
  have f1: "\<lfloor>(2 ^ 53 + 1) / 2 :: real\<rfloor> = 2 ^ 52"
    by (subst floor_eq_iff) simp
  have f3: "\<lfloor>(2 ^ 53 + 3) / 2 :: real\<rfloor> = 2 ^ 52 + 1"
    by (subst floor_eq_iff) simp
  have r1: "rne ((2 ^ 53 + 1) / 2) = 2 ^ 52"
    unfolding rne_def f1 by (simp add: Let_def)
  have r3: "rne ((2 ^ 53 + 3) / 2) = 2 ^ 52 + 2"
    unfolding rne_def f3 by (simp add: Let_def)
  show "rnd (2 ^ 53 + 1) = Fin (2 ^ 53)"
    unfolding rnd_def u1 r1 by simp
  show "rnd (2 ^ 53 + 3) = Fin (2 ^ 53 + 4)"
    unfolding rnd_def u3 r3 by simp
qed

section \<open>Comparisons and scans\<close>

text \<open>
  On an array without NaN, \<open>argmin\<close> returns the index of the first minimum and
  \<open>argmax\<close> the index of the first maximum; on every nonempty array the index is in
  range.
\<close>

lemma fl_le_refl: "x \<noteq> NaN \<Longrightarrow> fl_le x x"
  by (cases x) simp_all

lemma not_fl_le: "x \<noteq> NaN \<Longrightarrow> m \<noteq> NaN \<Longrightarrow> (\<not> fl_le m x) = fl_less x m"
  by (cases x; cases m) auto

lemma fl_less_imp_le: "fl_less a b \<Longrightarrow> fl_le a b"
  by (cases a; cases b) auto

lemma fl_less_le_trans: "fl_less a b \<Longrightarrow> fl_le b c \<Longrightarrow> fl_less a c"
  by (cases a; cases b; cases c) auto

lemma fl_le_trans: "fl_le a b \<Longrightarrow> fl_le b c \<Longrightarrow> fl_le a c"
  by (cases a; cases b; cases c) auto


lemma fl_le_antisym: "fl_le a b \<Longrightarrow> fl_le b a \<Longrightarrow> a = b"
  by (cases a; cases b) auto

lemma fl_le_neg: "fl_le (fl_neg a) (fl_neg b) = fl_le b a"
  by (cases a; cases b) auto

lemma fl_less_neg: "fl_less (fl_neg a) (fl_neg b) = fl_less b a"
  by (cases a; cases b) auto

lemma fl_neg_NaN: "fl_neg a = NaN \<longleftrightarrow> a = NaN" "NaN = fl_neg a \<longleftrightarrow> a = NaN"
  by (cases a; auto)+

lemma argmin_from_first:
  "NaN \<notin> set pre \<Longrightarrow> NaN \<notin> set xs \<Longrightarrow> first_min pre b \<Longrightarrow> m = pre ! b \<Longrightarrow> i = length pre
     \<Longrightarrow> first_min (pre @ xs) (argmin_from b m i xs)"
proof (induction xs arbitrary: pre b m i)
  case Nil
  then show ?case by simp
next
  case (Cons x xs)
  from Cons.prems have b: "b < length pre" by (simp add: first_min_def)
  with Cons.prems have m: "m \<noteq> NaN" by (metis nth_mem)
  from Cons.prems have x: "x \<noteq> NaN" by auto
  from Cons.prems x have nn: "NaN \<notin> set (pre @ [x])" "NaN \<notin> set xs" by auto
  show ?case
  proof (cases "fl_less x m")
    case True
    have "first_min (pre @ [x]) i"
      unfolding first_min_def
    proof (intro conjI allI impI)
      show "i < length (pre @ [x])" using Cons.prems by simp
    next
      fix k assume "k < length (pre @ [x])"
      then consider "k < length pre" | "k = length pre" by force
      then show "fl_le ((pre @ [x]) ! i) ((pre @ [x]) ! k)"
      proof cases
        case 1
        with Cons.prems have "fl_le m (pre ! k)" by (simp add: first_min_def)
        with True have "fl_less x (pre ! k)" by (rule fl_less_le_trans)
        with 1 Cons.prems show ?thesis by (simp add: nth_append fl_less_imp_le)
      next
        case 2
        with Cons.prems x show ?thesis by (simp add: nth_append fl_le_refl)
      qed
    next
      fix k assume "k < i"
      with Cons.prems have k: "k < length pre" by simp
      with Cons.prems have "fl_le m (pre ! k)" by (simp add: first_min_def)
      with True have "fl_less x (pre ! k)" by (rule fl_less_le_trans)
      with k Cons.prems show "fl_less ((pre @ [x]) ! i) ((pre @ [x]) ! k)"
        by (simp add: nth_append)
    qed
    from Cons.IH[OF nn this, of x "Suc i"] Cons.prems True x m show ?thesis
      by (simp add: not_fl_le)
  next
    case False
    with x m have le: "fl_le m x" using not_fl_le by blast
    have "first_min (pre @ [x]) b"
      using Cons.prems le b
      by (auto simp: first_min_def nth_append less_Suc_eq)
    from Cons.IH[OF nn this, of m "Suc i"] Cons.prems le b show ?thesis
      by (simp add: nth_append)
  qed
qed

lemma argmax_from_argmin_from:
  "argmax_from b m i xs = argmin_from b (fl_neg m) i (map fl_neg xs)"
  by (induction xs arbitrary: b m i) (auto simp: fl_le_neg fl_neg_NaN)

lemma first_max_neg: "first_max zs r \<longleftrightarrow> first_min (map fl_neg zs) r"
  unfolding first_max_def first_min_def
  by (cases "r < length zs") (auto simp: fl_le_neg fl_less_neg)

lemma argmin_first:
  assumes "zs \<noteq> []" "NaN \<notin> set zs"
  shows "\<exists>r. argmin zs = Inr r \<and> first_min zs r"
proof -
  from assms(1) obtain x xs where zs: "zs = x # xs" by (cases zs) auto
  with assms(2) have x: "x \<noteq> NaN" and xs: "NaN \<notin> set xs" by auto
  then have "first_min [x] 0" "NaN \<notin> set [x]" by (simp_all add: first_min_def fl_le_refl)
  from argmin_from_first[OF this(2) xs this(1), of x 1] zs x show ?thesis by simp
qed

lemma argmax_first:
  assumes "zs \<noteq> []" "NaN \<notin> set zs"
  shows "\<exists>r. argmax zs = Inr r \<and> first_max zs r"
proof -
  from assms(1) obtain x xs where zs: "zs = x # xs" by (cases zs) auto
  with assms(2) have x: "x \<noteq> NaN" and xs: "NaN \<notin> set (map fl_neg xs)"
    by (auto simp: fl_neg_NaN)
  from x have "first_min [fl_neg x] 0" "NaN \<notin> set [fl_neg x]"
    by (simp_all add: first_min_def fl_le_refl fl_neg_NaN)
  from argmin_from_first[OF this(2) xs this(1), of "fl_neg x" 1] zs x show ?thesis
    by (simp add: argmax_from_argmin_from first_max_neg)
qed

lemma argmin_from_less: "b < i \<Longrightarrow> argmin_from b m i xs < i + length xs"
proof (induction xs arbitrary: b m i)
  case Nil
  then show ?case by simp
next
  case (Cons x xs)
  from Cons.IH[of i "Suc i" x] have 1: "argmin_from i x (Suc i) xs < Suc i + length xs"
    by simp
  from Cons.IH[of b "Suc i" m] Cons.prems have 2: "argmin_from b m (Suc i) xs < Suc i + length xs"
    by simp
  from 1 2 show ?case by simp
qed

lemma argmin_less: "zs \<noteq> [] \<Longrightarrow> \<exists>r. argmin zs = Inr r \<and> r < length zs"
proof (cases zs)
  case Nil
  assume "zs \<noteq> []"
  with Nil show ?thesis by simp
next
  case (Cons x xs)
  from argmin_from_less[of 0 1 x xs] Cons show ?thesis by simp
qed

lemma argmax_less: "zs \<noteq> [] \<Longrightarrow> \<exists>r. argmax zs = Inr r \<and> r < length zs"
proof (cases zs)
  case Nil
  assume "zs \<noteq> []"
  with Nil show ?thesis by simp
next
  case (Cons x xs)
  from argmin_from_less[of 0 1 "fl_neg x" "map fl_neg xs"] Cons show ?thesis
    by (simp add: argmax_from_argmin_from)
qed

section \<open>Grids and the evaluator\<close>

text \<open>
  The entries of \<open>linspace\<close>, the grid of equal end points, and the shape of the
  evaluator's result: one grid entry \<open>qv[i]\<close> for each query, at the index that the scan
  of \<open>f(qv) - xij*qv\<close> returns.
\<close>

lemma rnd_finite: "\<bar>x\<bar> < 2 ^ 1024 - 2 ^ 970 \<Longrightarrow> \<exists>y. rnd x = Fin y"
  by (simp add: rnd_def)

lemma fl_mul_NaN: "fl_mul x NaN = NaN"
  by (cases x) simp_all

lemma fl_add_NaN: "fl_add x NaN = NaN"
  by (cases x) simp_all

lemma fl_sub_NaN: "fl_sub x NaN = NaN"
  by (simp add: fl_sub_def fl_add_NaN)

lemma fl_sub_Fin: "fl_sub (Fin a) (Fin b) = rnd (a - b)"
  by (simp add: fl_sub_def)

lemma fl_div_Fin: "b \<noteq> 0 \<Longrightarrow> fl_div (Fin a) (Fin b) = rnd (a / b)"
  by simp

lemma length_linspace: "length (linspace a b n) = n"
  by (simp add: linspace_def Let_def)

lemma linspace_last: "1 < n \<Longrightarrow> linspace a b n ! (n - 1) = b"
  by (simp add: linspace_def Let_def)

lemma nth_linspace_step:
  assumes "1 < n" "i < n - 1" "fl_div (fl_sub b a) (Fin (real (n - 1))) \<noteq> Fin 0"
  shows "linspace a b n ! i =
           fl_add (fl_mul (Fin (real i)) (fl_div (fl_sub b a) (Fin (real (n - 1))))) a"
  using assms by (simp add: linspace_def Let_def)

lemma nth_linspace_zero_step:
  assumes "1 < n" "i < n - 1" "fl_div (fl_sub b a) (Fin (real (n - 1))) = Fin 0"
  shows "linspace a b n ! i =
           fl_add (fl_mul (fl_div (Fin (real i)) (Fin (real (n - 1)))) (fl_sub b a)) a"
  using assms by (simp add: linspace_def Let_def)

lemma linspace_same:
  assumes c: "rnd c = Fin c" and n: "1 < n"
  shows "linspace (Fin c) (Fin c) n = replicate n (Fin c)"
proof (rule nth_equalityI)
  show "length (linspace (Fin c) (Fin c) n) = length (replicate n (Fin c))"
    by (simp add: length_linspace)
next
  fix i assume "i < length (linspace (Fin c) (Fin c) n)"
  then have i: "i < n" by (simp add: length_linspace)
  have delta: "fl_sub (Fin c) (Fin c) = Fin 0"
    by (simp add: fl_sub_Fin rnd_0)
  from n have ne: "real (n - 1) \<noteq> 0" by simp
  have step: "fl_div (fl_sub (Fin c) (Fin c)) (Fin (real (n - 1))) = Fin 0"
    unfolding delta fl_div_Fin[OF ne] by (simp add: rnd_0)
  show "linspace (Fin c) (Fin c) n ! i = replicate n (Fin c) ! i"
  proof (cases "i = n - 1")
    case True
    with n i linspace_last[OF n, of "Fin c" "Fin c"] show ?thesis by simp
  next
    case False
    with i have less: "i < n - 1" by simp
    have "\<bar>real i / real (n - 1)\<bar> \<le> 1" using less by simp
    also have "\<dots> < (2 ^ 1024 - 2 ^ 970 :: real)" by simp
    finally obtain t where t: "rnd (real i / real (n - 1)) = Fin t"
      using rnd_finite by blast
    have "fl_div (Fin (real i)) (Fin (real (n - 1))) = Fin t"
      unfolding fl_div_Fin[OF ne] by (rule t)
    then have "linspace (Fin c) (Fin c) n ! i = fl_add (fl_mul (Fin t) (Fin 0)) (Fin c)"
      using nth_linspace_zero_step[OF n less step] by (simp add: delta)
    also have "\<dots> = Fin c" by (simp add: rnd_0 c)
    finally show ?thesis using i by simp
  qed
qed

lemma length_qv: "length (qv q_left q_right) = 1000"
  by (simp add: qv_def length_linspace)

lemma qv_nonempty: "qv q_left q_right \<noteq> []"
  using length_qv[of q_left q_right] by auto

lemma qv_last: "qv q_left q_right ! 999 = py_max q_left q_right"
  using linspace_last[of 1000 "py_min q_left q_right" "py_max q_left q_right"]
  by (simp add: qv_def)

lemma qv_same: "rnd c = Fin c \<Longrightarrow> qv (Fin c) (Fin c) = replicate 1000 (Fin c)"
  by (simp add: qv_def py_min_def py_max_def linspace_same)

lemma length_objective: "length (objective f qs x) = length qs"
  by (simp add: objective_def)

lemma nth_objective:
  "k < length qs \<Longrightarrow> objective f qs x ! k = fl_sub (f (qs ! k)) (fl_mul x (qs ! k))"
  by (simp add: objective_def)

lemma objective_nonempty: "qs \<noteq> [] \<Longrightarrow> objective f qs x \<noteq> []"
  using length_objective[of f qs x] by auto

lemma qtilde_min_index:
  "qs \<noteq> [] \<Longrightarrow>
   \<exists>Q. qtilde_min f qs xi = Inr Q \<and>
       list_all2 (\<lambda>x q. \<exists>i<length qs. argmin (objective f qs x) = Inr i \<and> q = qs ! i) xi Q"
proof (induction xi)
  case Nil
  show ?case by simp
next
  case (Cons x xi)
  from Cons obtain Q where Q: "qtilde_min f qs xi = Inr Q"
    "list_all2 (\<lambda>x q. \<exists>i<length qs. argmin (objective f qs x) = Inr i \<and> q = qs ! i) xi Q"
    by blast
  from argmin_less[OF objective_nonempty[OF Cons.prems], of f x] obtain i where
    i: "argmin (objective f qs x) = Inr i" "i < length qs"
    by (auto simp: length_objective)
  from Q i show ?case by auto
qed

lemma qtilde_max_index:
  "qs \<noteq> [] \<Longrightarrow>
   \<exists>Q. qtilde_max f qs xi = Inr Q \<and>
       list_all2 (\<lambda>x q. \<exists>i<length qs. argmax (objective f qs x) = Inr i \<and> q = qs ! i) xi Q"
proof (induction xi)
  case Nil
  show ?case by simp
next
  case (Cons x xi)
  from Cons obtain Q where Q: "qtilde_max f qs xi = Inr Q"
    "list_all2 (\<lambda>x q. \<exists>i<length qs. argmax (objective f qs x) = Inr i \<and> q = qs ! i) xi Q"
    by blast
  from argmax_less[OF objective_nonempty[OF Cons.prems], of f x] obtain i where
    i: "argmax (objective f qs x) = Inr i" "i < length qs"
    by (auto simp: length_objective)
  from Q i show ?case by auto
qed

lemma osher_solution_index:
  "\<exists>Q. osher_solution f q_left q_right xi = Inr Q \<and>
       list_all2 (\<lambda>x q. \<exists>i<1000. q = qv q_left q_right ! i \<and>
                    (if fl_le q_left q_right
                     then argmin (objective f (qv q_left q_right) x) = Inr i
                     else argmax (objective f (qv q_left q_right) x) = Inr i)) xi Q"
proof (cases "fl_le q_left q_right")
  case True
  from qtilde_min_index[OF qv_nonempty, of f q_left q_right xi] obtain Q where
    Q: "qtilde_min f (qv q_left q_right) xi = Inr Q"
       "list_all2 (\<lambda>x q. \<exists>i<length (qv q_left q_right).
           argmin (objective f (qv q_left q_right) x) = Inr i \<and> q = qv q_left q_right ! i) xi Q"
    by blast
  from Q(2) have "list_all2 (\<lambda>x q. \<exists>i<1000. q = qv q_left q_right ! i \<and>
                    (if fl_le q_left q_right
                     then argmin (objective f (qv q_left q_right) x) = Inr i
                     else argmax (objective f (qv q_left q_right) x) = Inr i)) xi Q"
    by (rule list_all2_mono) (use True in \<open>auto simp: length_qv\<close>)
  with Q(1) True show ?thesis by (auto simp: osher_solution_def)
next
  case False
  from qtilde_max_index[OF qv_nonempty, of f q_left q_right xi] obtain Q where
    Q: "qtilde_max f (qv q_left q_right) xi = Inr Q"
       "list_all2 (\<lambda>x q. \<exists>i<length (qv q_left q_right).
           argmax (objective f (qv q_left q_right) x) = Inr i \<and> q = qv q_left q_right ! i) xi Q"
    by blast
  from Q(2) have "list_all2 (\<lambda>x q. \<exists>i<1000. q = qv q_left q_right ! i \<and>
                    (if fl_le q_left q_right
                     then argmin (objective f (qv q_left q_right) x) = Inr i
                     else argmax (objective f (qv q_left q_right) x) = Inr i)) xi Q"
    by (rule list_all2_mono) (use False in \<open>auto simp: length_qv\<close>)
  with Q(1) False show ?thesis by (auto simp: osher_solution_def)
qed

section \<open>Two grids\<close>

lemma rnd_of_int: "\<bar>n\<bar> < 2 ^ 53 \<Longrightarrow> rnd (of_int n) = Fin (of_int n)"
proof -
  assume n: "\<bar>n\<bar> < 2 ^ 53"
  then have "(of_int \<bar>n\<bar> :: real) < of_int (2 ^ 53)" by (simp only: of_int_less_iff)
  then have "\<bar>of_int n :: real\<bar> < 2 ^ 53" by simp
  also have "\<dots> < (2 ^ 1024 - 2 ^ 970 :: real)" by simp
  finally have fin: "\<bar>of_int n :: real\<bar> < 2 ^ 1024 - 2 ^ 970" .
  show ?thesis
    using rnd_exact[of "of_int n" n 0] n fin by simp
qed

lemma rnd_half: "rnd (1/2) = Fin (1/2)"
  using rnd_exact[of "1/2" 1 "- 1"] by (simp add: powr_minus_divide)

lemma rnd_small_nat: "n < 1000000 \<Longrightarrow> rnd (real n) = Fin (real n)"
  by (rule rnd_of_nat) simp

lemma rnd_small_int:
  assumes "\<bar>n\<bar> < 1000000"
  shows "rnd (of_int n) = Fin (of_int n)"
proof -
  have "(1000000 :: int) < 2 ^ 53" by simp
  with assms have "\<bar>n\<bar> < 2 ^ 53" by linarith
  then show ?thesis by (rule rnd_of_int)
qed

text \<open>The grid from 0 to 999 is the integers \<open>0, 1, ..., 999\<close>.\<close>

lemma linspace_0_999: "linspace (Fin 0) (Fin 999) 1000 = map (\<lambda>i. Fin (real i)) [0..<1000]"
proof (rule nth_equalityI)
  show "length (linspace (Fin 0) (Fin 999) 1000) = length (map (\<lambda>i. Fin (real i)) [0..<1000])"
    by (simp add: length_linspace)
next
  fix i assume "i < length (linspace (Fin 0) (Fin 999) 1000)"
  then have i: "i < 1000" by (simp add: length_linspace)
  have r999: "rnd 999 = Fin 999" using rnd_small_nat[of 999] by simp
  have r1: "rnd 1 = Fin 1" using rnd_small_nat[of 1] by simp
  have step: "fl_div (fl_sub (Fin 999) (Fin 0)) (Fin (real (1000 - 1))) = Fin 1"
    by (simp add: fl_sub_Fin r999 r1)
  show "linspace (Fin 0) (Fin 999) 1000 ! i = map (\<lambda>i. Fin (real i)) [0..<1000] ! i"
  proof (cases "i = 999")
    case True
    then show ?thesis using linspace_last[of 1000 "Fin 0" "Fin 999"] by simp
  next
    case False
    with i have less: "i < 1000 - 1" by simp
    have "linspace (Fin 0) (Fin 999) 1000 ! i =
            fl_add (fl_mul (Fin (real i)) (Fin 1)) (Fin 0)"
      using nth_linspace_step[of 1000 i "Fin 999" "Fin 0"] less step by simp
    also have "\<dots> = Fin (real i)"
      using rnd_small_nat[of i] i by simp
    finally show ?thesis using i by simp
  qed
qed

lemma qv_0_999: "qv (Fin 0) (Fin 999) = map (\<lambda>i. Fin (real i)) [0..<1000]"
  by (simp add: qv_def py_min_def py_max_def linspace_0_999)

lemma qv_999_0: "qv (Fin 999) (Fin 0) = map (\<lambda>i. Fin (real i)) [0..<1000]"
  by (simp add: qv_def py_min_def py_max_def linspace_0_999)

lemma nth_qv_0_999: "i < 1000 \<Longrightarrow> qv (Fin 0) (Fin 999) ! i = Fin (real i)"
  by (simp add: qv_0_999)


text \<open>
  The grid from \<open>-2^1023\<close> to \<open>2^1023\<close>: the difference of the end points overflows, the
  step is infinite, and the entries are NaN, then infinities, then the right end point.
\<close>

lemma huge_pos: "0 < huge"
  by (simp add: huge_def)

lemma huge_finite: "\<bar>huge\<bar> < 2 ^ 1024 - 2 ^ 970"
  by (simp add: huge_def)

lemma huge_twice: "2 \<le> k \<Longrightarrow> 2 ^ 1024 - 2 ^ 970 \<le> huge * real k"
proof -
  assume k: "2 \<le> k"
  have "(2 ^ 1024 - 2 ^ 970 :: real) \<le> huge * 2" by (simp add: huge_def)
  also have "\<dots> \<le> huge * real k" using k huge_pos by simp
  finally show ?thesis .
qed

lemma overflow_step:
  "fl_div (fl_sub (Fin huge) (Fin (- huge))) (Fin (real (1000 - 1))) = PInf"
proof -
  have r: "rnd (huge - - huge) = PInf"
  proof (rule rnd_overflow)
    have "(2 ^ 1024 - 2 ^ 970 :: real) \<le> huge * real 2" by (rule huge_twice) simp
    then show "2 ^ 1024 - 2 ^ 970 \<le> huge - - huge" by simp
  qed
  show ?thesis unfolding fl_sub_Fin r by simp
qed

lemma qv_overflow_eq: "qv (Fin (- huge)) (Fin huge) = linspace (Fin (- huge)) (Fin huge) 1000"
  using huge_pos by (simp add: qv_def py_min_def py_max_def)

lemma qv_overflow:
  "qv (Fin (- huge)) (Fin huge) ! 0 = NaN"
  "0 < i \<Longrightarrow> i < 999 \<Longrightarrow> qv (Fin (- huge)) (Fin huge) ! i = PInf"
  "qv (Fin (- huge)) (Fin huge) ! 999 = Fin huge"
proof -
  have nth: "linspace (Fin (- huge)) (Fin huge) 1000 ! k =
               fl_add (fl_mul (Fin (real k)) PInf) (Fin (- huge))" if "k < 999" for k
    using nth_linspace_step[of 1000 k "Fin huge" "Fin (- huge)"] that overflow_step
    by simp
  show "qv (Fin (- huge)) (Fin huge) ! 0 = NaN"
    using nth[of 0] by (simp add: qv_overflow_eq)
  show "0 < i \<Longrightarrow> i < 999 \<Longrightarrow> qv (Fin (- huge)) (Fin huge) ! i = PInf"
    using nth[of i] by (simp add: qv_overflow_eq)
  show "qv (Fin (- huge)) (Fin huge) ! 999 = Fin huge"
    using linspace_last[of 1000 "Fin (- huge)" "Fin huge"] by (simp add: qv_overflow_eq)
qed

text \<open>A grid that starts with NaN makes every scan stop at index 0.\<close>

lemma argmin_NaN_head: "zs \<noteq> [] \<Longrightarrow> zs ! 0 = NaN \<Longrightarrow> argmin zs = Inr 0"
  by (cases zs) simp_all

lemma argmax_NaN_head: "zs \<noteq> [] \<Longrightarrow> zs ! 0 = NaN \<Longrightarrow> argmax zs = Inr 0"
  by (cases zs) simp_all

lemma objective_NaN_head:
  assumes "qs \<noteq> []" "qs ! 0 = NaN"
  shows "objective f qs x ! 0 = NaN"
  using assms by (simp add: nth_objective fl_mul_NaN fl_sub_NaN)

lemma osher_solution_NaN_head:
  assumes "qv q_left q_right ! 0 = NaN"
  shows "osher_solution f q_left q_right xi = Inr (replicate (length xi) NaN)"
proof -
  from osher_solution_index[of f q_left q_right xi] obtain Q where
    Q: "osher_solution f q_left q_right xi = Inr Q"
       "list_all2 (\<lambda>x q. \<exists>i<1000. q = qv q_left q_right ! i \<and>
                    (if fl_le q_left q_right
                     then argmin (objective f (qv q_left q_right) x) = Inr i
                     else argmax (objective f (qv q_left q_right) x) = Inr i)) xi Q"
    by blast
  from Q(2) have len: "length Q = length xi"
    by (simp add: list_all2_lengthD)
  have sel: "argmin (objective f (qv q_left q_right) x) = Inr 0"
            "argmax (objective f (qv q_left q_right) x) = Inr 0" for x
    using objective_NaN_head[OF qv_nonempty assms, of f x]
          objective_nonempty[OF qv_nonempty, of f q_left q_right x]
    by (simp_all add: argmin_NaN_head argmax_NaN_head)
  have "Q ! j = NaN" if "j < length Q" for j
  proof -
    from Q(2) that obtain i where
      "Q ! j = qv q_left q_right ! i"
      "if fl_le q_left q_right
       then argmin (objective f (qv q_left q_right) (xi ! j)) = Inr i
       else argmax (objective f (qv q_left q_right) (xi ! j)) = Inr i"
      by (auto simp: list_all2_conv_all_nth)
    with sel[of "xi ! j"] assms show ?thesis by (auto split: if_splits)
  qed
  with len have "Q = replicate (length xi) NaN"
    by (intro nth_equalityI) simp_all
  with Q(1) show ?thesis by simp
qed

section \<open>What the evaluator selects\<close>

lemma fl_less_not_le: "fl_less b a \<Longrightarrow> \<not> fl_le a b"
  by (cases a; cases b) auto

lemma first_min_unique:
  assumes "first_min zs r" "first_min zs s"
  shows "r = s"
proof (rule ccontr)
  assume "r \<noteq> s"
  then consider "r < s" | "s < r" by linarith
  then show False
  proof cases
    case 1
    with assms have "fl_less (zs ! s) (zs ! r)" "fl_le (zs ! r) (zs ! s)"
      by (simp_all add: first_min_def)
    then show False using fl_less_not_le by blast
  next
    case 2
    with assms have "fl_less (zs ! r) (zs ! s)" "fl_le (zs ! s) (zs ! r)"
      by (simp_all add: first_min_def)
    then show False using fl_less_not_le by blast
  qed
qed

lemma first_max_unique:
  assumes "first_max zs r" "first_max zs s"
  shows "r = s"
  using assms first_min_unique[of "map fl_neg zs" r s] by (simp add: first_max_neg)

lemma argmin_eqI: "NaN \<notin> set zs \<Longrightarrow> first_min zs r \<Longrightarrow> argmin zs = Inr r"
proof -
  assume nn: "NaN \<notin> set zs" and r: "first_min zs r"
  from r have "zs \<noteq> []" by (auto simp: first_min_def)
  from argmin_first[OF this nn] obtain s where "argmin zs = Inr s" "first_min zs s" by blast
  with r first_min_unique show ?thesis by blast
qed

lemma argmax_eqI: "NaN \<notin> set zs \<Longrightarrow> first_max zs r \<Longrightarrow> argmax zs = Inr r"
proof -
  assume nn: "NaN \<notin> set zs" and r: "first_max zs r"
  from r have "zs \<noteq> []" by (auto simp: first_max_def)
  from argmax_first[OF this nn] obtain s where "argmax zs = Inr s" "first_max zs s" by blast
  with r first_max_unique show ?thesis by blast
qed

lemma osher_solution_first:
  "\<exists>Q. osher_solution f q_left q_right xi = Inr Q \<and>
       list_all2 (\<lambda>x q. \<exists>i<1000. q = qv q_left q_right ! i \<and>
                    (NaN \<notin> set (objective f (qv q_left q_right) x) \<longrightarrow>
                     (if fl_le q_left q_right
                      then first_min (objective f (qv q_left q_right) x) i
                      else first_max (objective f (qv q_left q_right) x) i))) xi Q"
proof -
  from osher_solution_index[of f q_left q_right xi] obtain Q where
    Q: "osher_solution f q_left q_right xi = Inr Q"
       "list_all2 (\<lambda>x q. \<exists>i<1000. q = qv q_left q_right ! i \<and>
                    (if fl_le q_left q_right
                     then argmin (objective f (qv q_left q_right) x) = Inr i
                     else argmax (objective f (qv q_left q_right) x) = Inr i)) xi Q"
    by blast
  have step: "\<exists>i<1000. q = qv q_left q_right ! i \<and>
                    (NaN \<notin> set (objective f (qv q_left q_right) x) \<longrightarrow>
                     (if fl_le q_left q_right
                      then first_min (objective f (qv q_left q_right) x) i
                      else first_max (objective f (qv q_left q_right) x) i))"
    if "\<exists>i<1000. q = qv q_left q_right ! i \<and>
                    (if fl_le q_left q_right
                     then argmin (objective f (qv q_left q_right) x) = Inr i
                     else argmax (objective f (qv q_left q_right) x) = Inr i)"
    for x q
  proof -
    from that obtain i where i: "i < 1000" "q = qv q_left q_right ! i"
      and sel: "if fl_le q_left q_right
                then argmin (objective f (qv q_left q_right) x) = Inr i
                else argmax (objective f (qv q_left q_right) x) = Inr i"
      by blast
    have ne: "objective f (qv q_left q_right) x \<noteq> []"
      by (rule objective_nonempty[OF qv_nonempty])
    have "if fl_le q_left q_right
          then first_min (objective f (qv q_left q_right) x) i
          else first_max (objective f (qv q_left q_right) x) i"
      if nn: "NaN \<notin> set (objective f (qv q_left q_right) x)"
      using argmin_first[OF ne nn] argmax_first[OF ne nn] sel
      by (auto split: if_splits)
    with i show ?thesis by blast
  qed
  from Q(2) have "list_all2 (\<lambda>x q. \<exists>i<1000. q = qv q_left q_right ! i \<and>
                    (NaN \<notin> set (objective f (qv q_left q_right) x) \<longrightarrow>
                     (if fl_le q_left q_right
                      then first_min (objective f (qv q_left q_right) x) i
                      else first_max (objective f (qv q_left q_right) x) i))) xi Q"
    by (rule list_all2_mono) (rule step)
  with Q(1) show ?thesis by blast
qed

lemma first_min_objective:
  assumes "first_min (objective f qs x) i" "k < length qs"
  shows "fl_le (fl_sub (f (qs ! i)) (fl_mul x (qs ! i))) (fl_sub (f (qs ! k)) (fl_mul x (qs ! k)))"
proof -
  from assms have i: "i < length qs" by (simp add: first_min_def length_objective)
  from assms have "fl_le (objective f qs x ! i) (objective f qs x ! k)"
    by (simp add: first_min_def length_objective)
  then show ?thesis
    by (simp only: nth_objective[OF i] nth_objective[OF assms(2)])
qed

lemma first_max_objective:
  assumes "first_max (objective f qs x) i" "k < length qs"
  shows "fl_le (fl_sub (f (qs ! k)) (fl_mul x (qs ! k))) (fl_sub (f (qs ! i)) (fl_mul x (qs ! i)))"
proof -
  from assms have i: "i < length qs" by (simp add: first_max_def length_objective)
  from assms have "fl_le (objective f qs x ! k) (objective f qs x ! i)"
    by (simp add: first_max_def length_objective)
  then show ?thesis
    by (simp only: nth_objective[OF i] nth_objective[OF assms(2)])
qed

section \<open>Concrete arrays\<close>

lemma not_NaN_in_set: "(\<And>i. i < length zs \<Longrightarrow> zs ! i \<noteq> NaN) \<Longrightarrow> NaN \<notin> set zs"
  by (metis in_set_conv_nth)

lemma f_zero_Fin: "f_zero (Fin r) = Fin 0"
  by (simp add: f_zero_def rnd_0)

lemma f_traffic_bound: "i < 1000 \<Longrightarrow> \<bar>int i * (1 - int i)\<bar> < 1000000"
proof -
  assume i: "i < 1000"
  have "\<bar>int i\<bar> * \<bar>1 - int i\<bar> \<le> 999 * 999"
    using i by (intro mult_mono) simp_all
  then show ?thesis by (simp add: abs_mult)
qed

lemma f_traffic_nat:
  assumes "i < 1000"
  shows "f_traffic (Fin (real i)) = Fin (of_int (int i * (1 - int i)))"
proof -
  have "rnd (of_int (1 - int i)) = Fin (of_int (1 - int i))"
    using assms by (intro rnd_small_int) simp
  then have 1: "rnd (1 - real i) = Fin (1 - real i)" by simp
  have "rnd (of_int (int i * (1 - int i))) = Fin (of_int (int i * (1 - int i)))"
    using f_traffic_bound[OF assms] by (rule rnd_small_int)
  then have 2: "rnd (real i * (1 - real i)) = Fin (of_int (int i * (1 - int i)))" by simp
  show ?thesis by (simp add: f_traffic_def fl_sub_Fin 1 2)
qed

text \<open>The array \<open>f(qv) - xij*qv\<close> on the grid of the integers.\<close>

lemma objective_traffic_0:
  assumes "i < 1000"
  shows "objective f_traffic (map (\<lambda>i. Fin (real i)) [0..<1000]) (Fin 0) ! i
           = Fin (of_int (int i * (1 - int i)))"
proof -
  have "rnd (of_int (int i * (1 - int i))) = Fin (of_int (int i * (1 - int i)))"
    using f_traffic_bound[OF assms] by (rule rnd_small_int)
  with assms show ?thesis
    by (simp add: nth_objective f_traffic_nat fl_sub_Fin rnd_0)
qed


lemma rnd_huge: "rnd huge = Fin huge" "rnd (- huge) = Fin (- huge)"
proof -
  have h: "huge = 2 powr 1023" by (simp add: huge_def powr_numeral)
  show "rnd huge = Fin huge"
    using rnd_exact[of huge 1 1023] huge_finite by (simp add: h)
  show "rnd (- huge) = Fin (- huge)"
    using rnd_exact[of "- huge" "- 1" 1023] huge_finite by (simp add: h)
qed

lemma objective_zero_huge:
  "objective f_zero (map (\<lambda>i. Fin (real i)) [0..<1000]) (Fin huge) ! 0 = Fin 0"
  "objective f_zero (map (\<lambda>i. Fin (real i)) [0..<1000]) (Fin huge) ! 1 = Fin (- huge)"
  "2 \<le> i \<Longrightarrow> i < 1000 \<Longrightarrow>
     objective f_zero (map (\<lambda>i. Fin (real i)) [0..<1000]) (Fin huge) ! i = NInf"
proof -
  show "objective f_zero (map (\<lambda>i. Fin (real i)) [0..<1000]) (Fin huge) ! 0 = Fin 0"
    by (simp add: nth_objective f_zero_Fin fl_sub_Fin rnd_0)
  show "objective f_zero (map (\<lambda>i. Fin (real i)) [0..<1000]) (Fin huge) ! 1 = Fin (- huge)"
    by (simp add: nth_objective f_zero_Fin fl_sub_Fin rnd_huge)
  show "objective f_zero (map (\<lambda>i. Fin (real i)) [0..<1000]) (Fin huge) ! i = NInf"
    if "2 \<le> i" "i < 1000"
  proof -
    have "rnd (huge * real i) = PInf"
      by (rule rnd_overflow) (rule huge_twice[OF that(1)])
    with that show ?thesis
      by (simp add: nth_objective f_zero_Fin fl_sub_def)
  qed
qed

lemma length_objective_int:
  "length (objective f (map (\<lambda>i. Fin (real i)) [0..<1000]) x) = 1000"
  by (simp add: length_objective)

lemma objective_traffic_0_noNaN:
  "NaN \<notin> set (objective f_traffic (map (\<lambda>i. Fin (real i)) [0..<1000]) (Fin 0))"
  by (rule not_NaN_in_set) (simp add: length_objective objective_traffic_0)


lemma objective_zero_huge_noNaN:
  "NaN \<notin> set (objective f_zero (map (\<lambda>i. Fin (real i)) [0..<1000]) (Fin huge))"
proof (rule not_NaN_in_set)
  fix i assume "i < length (objective f_zero (map (\<lambda>i. Fin (real i)) [0..<1000]) (Fin huge))"
  then have i: "i < 1000" by (simp add: length_objective)
  consider "i = 0" | "i = 1" | "2 \<le> i" by linarith
  then show "objective f_zero (map (\<lambda>i. Fin (real i)) [0..<1000]) (Fin huge) ! i \<noteq> NaN"
    using objective_zero_huge i by cases simp_all
qed


lemma argmin_zero_huge:
  "argmin (objective f_zero (map (\<lambda>i. Fin (real i)) [0..<1000]) (Fin huge)) = Inr 2"
proof (rule argmin_eqI)
  show "NaN \<notin> set (objective f_zero (map (\<lambda>i. Fin (real i)) [0..<1000]) (Fin huge))"
    by (rule objective_zero_huge_noNaN)
  have two: "objective f_zero (map (\<lambda>i. Fin (real i)) [0..<1000]) (Fin huge) ! 2 = NInf"
    using objective_zero_huge(3)[of 2] by simp
  have le: "fl_le NInf (objective f_zero (map (\<lambda>i. Fin (real i)) [0..<1000]) (Fin huge) ! k)"
    if "k < 1000" for k
  proof -
    consider "k = 0" | "k = 1" | "2 \<le> k" by linarith
    then show ?thesis using objective_zero_huge that by cases simp_all
  qed
  have less: "fl_less NInf (objective f_zero (map (\<lambda>i. Fin (real i)) [0..<1000]) (Fin huge) ! k)"
    if "k < 2" for k
  proof -
    from that consider "k = 0" | "k = 1" by linarith
    then show ?thesis using objective_zero_huge by cases simp_all
  qed
  show "first_min (objective f_zero (map (\<lambda>i. Fin (real i)) [0..<1000]) (Fin huge)) 2"
    unfolding first_min_def length_objective_int two
    using le less by simp
qed


lemma osher_zero_int_huge:
  "osher_solution f_zero (Fin 0) (Fin 999) [Fin huge] = Inr [Fin 2]"
  by (simp add: osher_solution_def qv_0_999 argmin_zero_huge)

lemma osher_overflow:
  "osher_solution f (Fin (- huge)) (Fin huge) xi = Inr (replicate (length xi) NaN)"
  by (rule osher_solution_NaN_head) (rule qv_overflow(1))

lemma mem_qv_0_999: "Fin 999 \<in> set (qv (Fin 0) (Fin 999))" "Fin 0 \<in> set (qv (Fin 0) (Fin 999))"
proof -
  have "qv (Fin 0) (Fin 999) ! 999 \<in> set (qv (Fin 0) (Fin 999))"
       "qv (Fin 0) (Fin 999) ! 0 \<in> set (qv (Fin 0) (Fin 999))"
    by (rule nth_mem, simp add: length_qv)+
  then show "Fin 999 \<in> set (qv (Fin 0) (Fin 999))" "Fin 0 \<in> set (qv (Fin 0) (Fin 999))"
    by (simp_all add: nth_qv_0_999)
qed

lemma mem_qv_overflow: "Fin huge \<in> set (qv (Fin (- huge)) (Fin huge))"
proof -
  have "qv (Fin (- huge)) (Fin huge) ! 999 \<in> set (qv (Fin (- huge)) (Fin huge))"
    by (rule nth_mem) (simp add: length_qv)
  then show ?thesis by (simp add: qv_overflow(3))
qed




lemma traffic_values_bound:
  assumes "k < 1000"
  shows "- 997002 \<le> int k * (1 - int k)"
    and "k < 999 \<Longrightarrow> - 997002 < int k * (1 - int k)"
proof -
  have le: "int k * (int k - 1) \<le> int n * (int n - 1)" if "k \<le> n" "0 < n" for n
  proof (cases "k = 0")
    case True
    from that(2) have "0 \<le> int n * (int n - 1)" by (intro mult_nonneg_nonneg) simp_all
    with True show ?thesis by simp
  next
    case False
    with that show ?thesis by (intro mult_mono) simp_all
  qed
  have eq: "int k * (1 - int k) = - (int k * (int k - 1))" by (simp add: algebra_simps)
  from assms le[of 999] show "- 997002 \<le> int k * (1 - int k)" unfolding eq by simp
  show "- 997002 < int k * (1 - int k)" if "k < 999"
    using that le[of 998] unfolding eq by simp
qed

lemma argmin_traffic_0:
  "argmin (objective f_traffic (map (\<lambda>i. Fin (real i)) [0..<1000]) (Fin 0)) = Inr 999"
proof (rule argmin_eqI)
  show "NaN \<notin> set (objective f_traffic (map (\<lambda>i. Fin (real i)) [0..<1000]) (Fin 0))"
    by (rule objective_traffic_0_noNaN)
  have v: "objective f_traffic (map (\<lambda>i. Fin (real i)) [0..<1000]) (Fin 0) ! 999 = Fin (- 997002)"
    using objective_traffic_0[of 999] by simp
  have le: "fl_le (Fin (- 997002))
              (objective f_traffic (map (\<lambda>i. Fin (real i)) [0..<1000]) (Fin 0) ! k)"
    if "k < 1000" for k
  proof -
    from traffic_values_bound(1)[OF that]
    have "(of_int (- 997002) :: real) \<le> of_int (int k * (1 - int k))"
      by (simp only: of_int_le_iff)
    then show ?thesis unfolding objective_traffic_0[OF that] by simp
  qed
  have less: "fl_less (Fin (- 997002))
              (objective f_traffic (map (\<lambda>i. Fin (real i)) [0..<1000]) (Fin 0) ! k)"
    if "k < 999" for k
  proof -
    from that have k: "k < 1000" by simp
    from traffic_values_bound(2)[OF k that]
    have "(of_int (- 997002) :: real) < of_int (int k * (1 - int k))"
      by (simp only: of_int_less_iff)
    then show ?thesis unfolding objective_traffic_0[OF k] by simp
  qed
  show "first_min (objective f_traffic (map (\<lambda>i. Fin (real i)) [0..<1000]) (Fin 0)) 999"
    unfolding first_min_def length_objective_int v
    using le less by simp
qed

lemma argmax_traffic_0:
  "argmax (objective f_traffic (map (\<lambda>i. Fin (real i)) [0..<1000]) (Fin 0)) = Inr 0"
proof (rule argmax_eqI)
  show "NaN \<notin> set (objective f_traffic (map (\<lambda>i. Fin (real i)) [0..<1000]) (Fin 0))"
    by (rule objective_traffic_0_noNaN)
  have v: "objective f_traffic (map (\<lambda>i. Fin (real i)) [0..<1000]) (Fin 0) ! 0 = Fin 0"
    using objective_traffic_0[of 0] by simp
  have le: "fl_le (objective f_traffic (map (\<lambda>i. Fin (real i)) [0..<1000]) (Fin 0) ! k) (Fin 0)"
    if "k < 1000" for k
  proof -
    have "int k * (1 - int k) \<le> 0"
    proof (cases "k = 0")
      case True
      then show ?thesis by simp
    next
      case False
      then show ?thesis by (intro mult_nonneg_nonpos) simp_all
    qed
    then have "(of_int (int k * (1 - int k)) :: real) \<le> 0"
      by (simp only: of_int_le_0_iff)
    then show ?thesis unfolding objective_traffic_0[OF that] by simp
  qed
  show "first_max (objective f_traffic (map (\<lambda>i. Fin (real i)) [0..<1000]) (Fin 0)) 0"
    unfolding first_max_def length_objective_int v
    using le by simp
qed

lemma osher_traffic_0:
  "osher_solution f_traffic (Fin 0) (Fin 999) [Fin 0] = Inr [Fin 999]"
  "osher_solution f_traffic (Fin 999) (Fin 0) [Fin 0] = Inr [Fin 0]"
  by (simp_all add: osher_solution_def qv_0_999 qv_999_0 argmin_traffic_0 argmax_traffic_0)














section \<open>The pieces of the characteristic trace\<close>

lemma length_diff: "length (diff a) = length a - 1"
  by (simp add: diff_def)


lemma length_dfdq: "length (dfdq f qs) = length qs - 1"
  by (simp add: dfdq_def length_diff)




lemma amin_Inr: "ds \<noteq> [] \<Longrightarrow> \<exists>m. amin ds = Inr m"
  by (cases ds) simp_all

lemma amax_Inr: "ds \<noteq> [] \<Longrightarrow> \<exists>m. amax ds = Inr m"
  by (cases ds) simp_all

lemma dfdq_qv_nonempty: "dfdq f (qv q_left q_right) \<noteq> []"
proof -
  have "length (dfdq f (qv q_left q_right)) = 999"
    by (simp add: length_dfdq length_qv)
  then show ?thesis by auto
qed

lemma nonconvex_solutions_given:
  "\<exists>Q. osher_solution f q_left q_right (linspace a b 1000) = Inr Q \<and>
       nonconvex_solutions f q_left q_right (Some a) (Some b) =
         Inr (linspace a b 1000, Q,
              q_char (qv q_left q_right) (py_min q_left q_right) (py_max q_left q_right),
              (if fl_le q_left q_right then a else b) # dfdq f (qv q_left q_right)
                @ [if fl_le q_left q_right then b else a])"
proof -
  obtain Q where Q: "osher_solution f q_left q_right (linspace a b 1000) = Inr Q"
    using osher_solution_index[of f q_left q_right "linspace a b 1000"] by blast
  obtain lo where lo: "amin (dfdq f (qv q_left q_right)) = Inr lo"
    using amin_Inr[OF dfdq_qv_nonempty] by blast
  obtain hi where hi: "amax (dfdq f (qv q_left q_right)) = Inr hi"
    using amax_Inr[OF dfdq_qv_nonempty] by blast
  have "nonconvex_solutions f q_left q_right (Some a) (Some b) =
         Inr (linspace a b 1000, Q,
              q_char (qv q_left q_right) (py_min q_left q_right) (py_max q_left q_right),
              (if fl_le q_left q_right then a else b) # dfdq f (qv q_left q_right)
                @ [if fl_le q_left q_right then b else a])"
    using Q lo hi
    by (simp add: nonconvex_solutions_def np_linspace_def Let_def qv_def[symmetric])
  with Q show ?thesis by blast
qed

lemma nonconvex_solutions_omitted:
  "nonconvex_solutions f q_left q_right None xi_right = Inl TypeError"
  "nonconvex_solutions f q_left q_right xi_left None = Inl TypeError"
  by (simp_all add: nonconvex_solutions_def np_linspace_def Let_def split: option.splits)

section \<open>The claims\<close>

subsection \<open>Extremal points\<close>

text \<open>
  Claim C1, as amended. For every flux, all states and every query the evaluator returns
  an entry \<open>q\<close> of the state grid. When none of the values \<open>f(qv) - x*qv\<close> that the
  code computes is NaN, \<open>q\<close> has the least computed value of the grid if
  \<open>q_left < q_right\<close>, and the greatest if \<open>q_right < q_left\<close>. The values compared are
  the doubles that the code computes, with their rounding and overflow, not the exact
  numbers \<open>f(q) - x*q\<close>.
\<close>

theorem osher_solution_extremal:
  "\<exists>Q. osher_solution f q_left q_right xi = Inr Q \<and>
     list_all2 (\<lambda>x q. q \<in> set (qv q_left q_right) \<and>
        (NaN \<notin> set (objective f (qv q_left q_right) x) \<longrightarrow>
           (fl_less q_left q_right \<longrightarrow>
              (\<forall>p\<in>set (qv q_left q_right).
                 fl_le (fl_sub (f q) (fl_mul x q)) (fl_sub (f p) (fl_mul x p)))) \<and>
           (fl_less q_right q_left \<longrightarrow>
              (\<forall>p\<in>set (qv q_left q_right).
                 fl_le (fl_sub (f p) (fl_mul x p)) (fl_sub (f q) (fl_mul x q)))))) xi Q"
proof -
  from osher_solution_first[of f q_left q_right xi] obtain Q where
    Q: "osher_solution f q_left q_right xi = Inr Q"
       "list_all2 (\<lambda>x q. \<exists>i<1000. q = qv q_left q_right ! i \<and>
                    (NaN \<notin> set (objective f (qv q_left q_right) x) \<longrightarrow>
                     (if fl_le q_left q_right
                      then first_min (objective f (qv q_left q_right) x) i
                      else first_max (objective f (qv q_left q_right) x) i))) xi Q"
    by blast
  have step: "q \<in> set (qv q_left q_right) \<and>
        (NaN \<notin> set (objective f (qv q_left q_right) x) \<longrightarrow>
           (fl_less q_left q_right \<longrightarrow>
              (\<forall>p\<in>set (qv q_left q_right).
                 fl_le (fl_sub (f q) (fl_mul x q)) (fl_sub (f p) (fl_mul x p)))) \<and>
           (fl_less q_right q_left \<longrightarrow>
              (\<forall>p\<in>set (qv q_left q_right).
                 fl_le (fl_sub (f p) (fl_mul x p)) (fl_sub (f q) (fl_mul x q)))))"
    if "\<exists>i<1000. q = qv q_left q_right ! i \<and>
                    (NaN \<notin> set (objective f (qv q_left q_right) x) \<longrightarrow>
                     (if fl_le q_left q_right
                      then first_min (objective f (qv q_left q_right) x) i
                      else first_max (objective f (qv q_left q_right) x) i))"
    for x q
  proof -
    from that obtain i where i: "i < 1000" "q = qv q_left q_right ! i"
      and sel: "NaN \<notin> set (objective f (qv q_left q_right) x) \<Longrightarrow>
                  if fl_le q_left q_right
                  then first_min (objective f (qv q_left q_right) x) i
                  else first_max (objective f (qv q_left q_right) x) i"
      by blast
    from i have mem: "q \<in> set (qv q_left q_right)" by (simp add: length_qv)
    have lo: "fl_le (fl_sub (f q) (fl_mul x q)) (fl_sub (f p) (fl_mul x p))"
      if "NaN \<notin> set (objective f (qv q_left q_right) x)" "fl_less q_left q_right"
         "p \<in> set (qv q_left q_right)" for p
    proof -
      from that(3) obtain k where k: "k < length (qv q_left q_right)" "p = qv q_left q_right ! k"
        by (auto simp: in_set_conv_nth)
      from that(2) have "fl_le q_left q_right" by (rule fl_less_imp_le)
      with sel[OF that(1)] have "first_min (objective f (qv q_left q_right) x) i" by simp
      from first_min_objective[OF this k(1)] i(2) k(2) show ?thesis by simp
    qed
    have hi: "fl_le (fl_sub (f p) (fl_mul x p)) (fl_sub (f q) (fl_mul x q))"
      if "NaN \<notin> set (objective f (qv q_left q_right) x)" "fl_less q_right q_left"
         "p \<in> set (qv q_left q_right)" for p
    proof -
      from that(3) obtain k where k: "k < length (qv q_left q_right)" "p = qv q_left q_right ! k"
        by (auto simp: in_set_conv_nth)
      from that(2) have "\<not> fl_le q_left q_right" by (rule fl_less_not_le)
      with sel[OF that(1)] have "first_max (objective f (qv q_left q_right) x) i" by simp
      from first_max_objective[OF this k(1)] i(2) k(2) show ?thesis by simp
    qed
    from mem lo hi show ?thesis by blast
  qed
  from Q(2) have "list_all2 (\<lambda>x q. q \<in> set (qv q_left q_right) \<and>
        (NaN \<notin> set (objective f (qv q_left q_right) x) \<longrightarrow>
           (fl_less q_left q_right \<longrightarrow>
              (\<forall>p\<in>set (qv q_left q_right).
                 fl_le (fl_sub (f q) (fl_mul x q)) (fl_sub (f p) (fl_mul x p)))) \<and>
           (fl_less q_right q_left \<longrightarrow>
              (\<forall>p\<in>set (qv q_left q_right).
                 fl_le (fl_sub (f p) (fl_mul x p)) (fl_sub (f q) (fl_mul x q)))))) xi Q"
    by (rule list_all2_mono) (rule step)
  with Q(1) show ?thesis by blast
qed

text \<open>
  The theorem on the grid \<open>0, 1, ..., 999\<close> with the traffic flux and the query \<open>0\<close>, in both
  branches: no computed value is NaN, the evaluator returns \<open>999\<close> for \<open>q_left < q_right\<close>
  and \<open>0\<close> for \<open>q_right < q_left\<close>, and the computed value there compares below (above)
  or equal to the one at the grid point \<open>999\<close>.
\<close>

theorem osher_solution_extremal_witness:
  "fl_less (Fin 0) (Fin 999) \<and>
   NaN \<notin> set (objective f_traffic (qv (Fin 0) (Fin 999)) (Fin 0)) \<and>
   osher_solution f_traffic (Fin 0) (Fin 999) [Fin 0] = Inr [Fin 999] \<and>
   (\<exists>Q. osher_solution f_traffic (Fin 0) (Fin 999) [Fin 0] = Inr Q \<and>
      list_all2 (\<lambda>x q. q \<in> set (qv (Fin 0) (Fin 999)) \<and>
                   fl_le (fl_sub (f_traffic q) (fl_mul x q))
                         (fl_sub (f_traffic (Fin 999)) (fl_mul x (Fin 999)))) [Fin 0] Q) \<and>
   fl_less (Fin 0) (Fin 999) \<and>
   NaN \<notin> set (objective f_traffic (qv (Fin 999) (Fin 0)) (Fin 0)) \<and>
   osher_solution f_traffic (Fin 999) (Fin 0) [Fin 0] = Inr [Fin 0] \<and>
   (\<exists>Q. osher_solution f_traffic (Fin 999) (Fin 0) [Fin 0] = Inr Q \<and>
      list_all2 (\<lambda>x q. q \<in> set (qv (Fin 999) (Fin 0)) \<and>
                   fl_le (fl_sub (f_traffic (Fin 999)) (fl_mul x (Fin 999)))
                         (fl_sub (f_traffic q) (fl_mul x q))) [Fin 0] Q)"
proof (intro conjI)
  show less: "fl_less (Fin 0) (Fin 999)" "fl_less (Fin 0) (Fin 999)" by simp_all
  show "osher_solution f_traffic (Fin 0) (Fin 999) [Fin 0] = Inr [Fin 999]"
       "osher_solution f_traffic (Fin 999) (Fin 0) [Fin 0] = Inr [Fin 0]"
    by (rule osher_traffic_0)+
  show nn: "NaN \<notin> set (objective f_traffic (qv (Fin 0) (Fin 999)) (Fin 0))"
    by (simp only: qv_0_999 objective_traffic_0_noNaN not_False_eq_True)
  show nn': "NaN \<notin> set (objective f_traffic (qv (Fin 999) (Fin 0)) (Fin 0))"
    by (simp only: qv_999_0 objective_traffic_0_noNaN not_False_eq_True)
  from osher_solution_extremal[of f_traffic "Fin 0" "Fin 999" "[Fin 0]"] obtain q where
    Q: "osher_solution f_traffic (Fin 0) (Fin 999) [Fin 0] = Inr [q]"
    and q: "q \<in> set (qv (Fin 0) (Fin 999))"
    and ext: "NaN \<notin> set (objective f_traffic (qv (Fin 0) (Fin 999)) (Fin 0)) \<longrightarrow>
           (fl_less (Fin 0) (Fin 999) \<longrightarrow>
              (\<forall>p\<in>set (qv (Fin 0) (Fin 999)).
                 fl_le (fl_sub (f_traffic q) (fl_mul (Fin 0) q))
                       (fl_sub (f_traffic p) (fl_mul (Fin 0) p))))"
    by (auto simp: list_all2_Cons1)
  from ext nn less(1) mem_qv_0_999(1)
  have "fl_le (fl_sub (f_traffic q) (fl_mul (Fin 0) q))
              (fl_sub (f_traffic (Fin 999)) (fl_mul (Fin 0) (Fin 999)))"
    by blast
  with Q q show "\<exists>Q. osher_solution f_traffic (Fin 0) (Fin 999) [Fin 0] = Inr Q \<and>
      list_all2 (\<lambda>x q. q \<in> set (qv (Fin 0) (Fin 999)) \<and>
                   fl_le (fl_sub (f_traffic q) (fl_mul x q))
                         (fl_sub (f_traffic (Fin 999)) (fl_mul x (Fin 999)))) [Fin 0] Q"
    by simp
  have mem: "Fin 999 \<in> set (qv (Fin 999) (Fin 0))"
    using mem_qv_0_999(1) by (simp only: qv_0_999 qv_999_0)
  from osher_solution_extremal[of f_traffic "Fin 999" "Fin 0" "[Fin 0]"] obtain r where
    R: "osher_solution f_traffic (Fin 999) (Fin 0) [Fin 0] = Inr [r]"
    and r: "r \<in> set (qv (Fin 999) (Fin 0))"
    and ext': "NaN \<notin> set (objective f_traffic (qv (Fin 999) (Fin 0)) (Fin 0)) \<longrightarrow>
           (fl_less (Fin 0) (Fin 999) \<longrightarrow>
              (\<forall>p\<in>set (qv (Fin 999) (Fin 0)).
                 fl_le (fl_sub (f_traffic p) (fl_mul (Fin 0) p))
                       (fl_sub (f_traffic r) (fl_mul (Fin 0) r))))"
    by (auto simp: list_all2_Cons1)
  from ext' nn' less(1) mem
  have "fl_le (fl_sub (f_traffic (Fin 999)) (fl_mul (Fin 0) (Fin 999)))
              (fl_sub (f_traffic r) (fl_mul (Fin 0) r))"
    by blast
  with R r show "\<exists>Q. osher_solution f_traffic (Fin 999) (Fin 0) [Fin 0] = Inr Q \<and>
      list_all2 (\<lambda>x q. q \<in> set (qv (Fin 999) (Fin 0)) \<and>
                   fl_le (fl_sub (f_traffic (Fin 999)) (fl_mul x (Fin 999)))
                         (fl_sub (f_traffic q) (fl_mul x q))) [Fin 0] Q"
    by simp
qed

text \<open>
  The claim as it was stated, that the returned point minimizes \<open>f(q) - xi*q\<close> over the
  grid for all states and queries, is false of the code in two ways. With the states
  \<open>-2^1023\<close> and \<open>2^1023\<close> the difference of the end points overflows inside
  \<open>linspace\<close>, the grid is \<open>[nan, inf, ..., inf, 2^1023]\<close>, and the evaluator returns NaN,
  whose value is not below that of the grid point \<open>2^1023\<close>. With the zero flux on the grid
  \<open>0, 1, ..., 999\<close> and the query \<open>2^1023\<close> the products \<open>xi*qv\<close> overflow from index 2 on:
  the evaluator returns \<open>2\<close>, while \<open>f(q) - xi*q = - 2^1023 * q\<close> is least at \<open>999\<close>.
\<close>

theorem osher_solution_extremal_counterexample:
  "fl_less (Fin (- huge)) (Fin huge) \<and>
   osher_solution f_traffic (Fin (- huge)) (Fin huge) [Fin 0] = Inr [NaN] \<and>
   Fin huge \<in> set (qv (Fin (- huge)) (Fin huge)) \<and>
   \<not> fl_le (fl_sub (f_traffic NaN) (fl_mul (Fin 0) NaN))
            (fl_sub (f_traffic (Fin huge)) (fl_mul (Fin 0) (Fin huge))) \<and>
   fl_less (Fin 0) (Fin 999) \<and>
   osher_solution f_zero (Fin 0) (Fin 999) [Fin huge] = Inr [Fin 2] \<and>
   Fin 999 \<in> set (qv (Fin 0) (Fin 999)) \<and>
   \<not> (0 - huge * 2 \<le> 0 - huge * 999)"
proof (intro conjI)
  show "fl_less (Fin (- huge)) (Fin huge)" using huge_pos by simp
  show "osher_solution f_traffic (Fin (- huge)) (Fin huge) [Fin 0] = Inr [NaN]"
    using osher_overflow[of f_traffic "[Fin 0]"] by simp
  show "Fin huge \<in> set (qv (Fin (- huge)) (Fin huge))" by (rule mem_qv_overflow)
  show "\<not> fl_le (fl_sub (f_traffic NaN) (fl_mul (Fin 0) NaN))
            (fl_sub (f_traffic (Fin huge)) (fl_mul (Fin 0) (Fin huge)))"
    by (simp add: fl_sub_NaN)
  show "fl_less (Fin 0) (Fin 999)" by simp
  show "osher_solution f_zero (Fin 0) (Fin 999) [Fin huge] = Inr [Fin 2]"
    by (rule osher_zero_int_huge)
  show "Fin 999 \<in> set (qv (Fin 0) (Fin 999))" by (rule mem_qv_0_999)
  show "\<not> (0 - huge * 2 \<le> 0 - huge * 999)" using huge_pos by simp
qed

subsection \<open>The range of the evaluator\<close>




subsection \<open>Equal states\<close>

text \<open>
  Claim C5. With \<open>q_left = q_right = c\<close>, where \<open>c\<close> is a finite double (rounding leaves
  it as it is), the evaluator is the constant function: it returns \<open>c\<close> for every entry
  of the query sequence.
\<close>

theorem osher_solution_degenerate:
  assumes "rnd c = Fin c"
  shows "osher_solution f (Fin c) (Fin c) xi = Inr (replicate (length xi) (Fin c))"
proof -
  from osher_solution_index[of f "Fin c" "Fin c" xi] obtain Q where
    Q: "osher_solution f (Fin c) (Fin c) xi = Inr Q"
       "list_all2 (\<lambda>x q. \<exists>i<1000. q = qv (Fin c) (Fin c) ! i \<and>
                    (if fl_le (Fin c) (Fin c)
                     then argmin (objective f (qv (Fin c) (Fin c)) x) = Inr i
                     else argmax (objective f (qv (Fin c) (Fin c)) x) = Inr i)) xi Q"
    by blast
  from Q(2) have len: "length Q = length xi"
    by (simp add: list_all2_lengthD)
  have "Q ! j = Fin c" if "j < length Q" for j
  proof -
    from Q(2) that obtain i where "i < 1000" "Q ! j = qv (Fin c) (Fin c) ! i"
      by (auto simp: list_all2_conv_all_nth)
    then show ?thesis by (simp add: qv_same[OF assms])
  qed
  with len have "Q = replicate (length xi) (Fin c)"
    by (intro nth_equalityI) simp_all
  with Q(1) show ?thesis by simp
qed

text \<open>The theorem at \<open>c = 0.5\<close>, the traffic flux and the queries \<open>0, 1\<close>.\<close>

theorem osher_solution_degenerate_witness:
  "rnd (1/2) = Fin (1/2) \<and>
   osher_solution f_traffic (Fin (1/2)) (Fin (1/2)) [Fin 0, Fin 1] = Inr [Fin (1/2), Fin (1/2)]"
  using osher_solution_degenerate[OF rnd_half, of f_traffic "[Fin 0, Fin 1]"] rnd_half
  by (simp add: numeral_2_eq_2)

text \<open>
  Claim C4, as amended. Solving with \<open>q_left = q_right = c\<close> signals no error: the
  evaluator of \<open>osher_solution\<close> returns a value for every query, and
  \<open>nonconvex_solutions\<close>, called with both bounds, returns its tuple. For a finite
  double \<open>d\<close> the grid built from \<open>q_left = q_right = d\<close> is 1000 copies of \<open>d\<close>.
\<close>

theorem degenerate_data_no_error:
  "(\<exists>Q. osher_solution f c c xi = Inr Q \<and> length Q = length xi) \<and>
   (\<exists>r. nonconvex_solutions f c c (Some a) (Some b) = Inr r) \<and>
   (rnd d = Fin d \<longrightarrow> qv (Fin d) (Fin d) = replicate 1000 (Fin d))"
proof (intro conjI impI)
  from osher_solution_index[of f c c xi]
  show "\<exists>Q. osher_solution f c c xi = Inr Q \<and> length Q = length xi"
    by (auto dest: list_all2_lengthD)
  from nonconvex_solutions_given[of f c c a b]
  show "\<exists>r. nonconvex_solutions f c c (Some a) (Some b) = Inr r"
    by blast
  show "qv (Fin d) (Fin d) = replicate 1000 (Fin d)" if "rnd d = Fin d"
    using that by (rule qv_same)
qed

text \<open>The theorem at \<open>c = d = 0.5\<close> with the traffic flux.\<close>

theorem degenerate_data_no_error_witness:
  "qv (Fin (1/2)) (Fin (1/2)) = replicate 1000 (Fin (1/2)) \<and>
   (\<exists>Q. osher_solution f_traffic (Fin (1/2)) (Fin (1/2)) [Fin 0, Fin 1] = Inr Q \<and> length Q = 2) \<and>
   (\<exists>r. nonconvex_solutions f_traffic (Fin (1/2)) (Fin (1/2))
           (Some (Fin (- (3/2)))) (Some (Fin (3/2))) = Inr r)"
  using degenerate_data_no_error[of f_traffic "Fin (1/2)" "[Fin 0, Fin 1]"
          "Fin (- (3/2))" "Fin (3/2)" "1/2"] rnd_half
  by (simp add: numeral_2_eq_2)

text \<open>
  The claim as it was stated, that equal states fail with an error, is false at
  \<open>q_left = q_right = 0.5\<close> for the traffic flux: neither function returns an error, and
  the grid has zero width.
\<close>

theorem degenerate_data_counterexample:
  "\<not> isl (osher_solution f_traffic (Fin (1/2)) (Fin (1/2)) [Fin 0, Fin 1]) \<and>
   qv (Fin (1/2)) (Fin (1/2)) = replicate 1000 (Fin (1/2)) \<and>
   \<not> isl (nonconvex_solutions f_traffic (Fin (1/2)) (Fin (1/2))
            (Some (Fin (- (3/2)))) (Some (Fin (3/2))))"
  using osher_solution_index[of f_traffic "Fin (1/2)" "Fin (1/2)" "[Fin 0, Fin 1]"]
        nonconvex_solutions_given[of f_traffic "Fin (1/2)" "Fin (1/2)" "Fin (- (3/2))" "Fin (3/2)"]
        qv_same[OF rnd_half]
  by auto

subsection \<open>The first extremal point\<close>




subsection \<open>Monotonicity in the query\<close>




subsection \<open>The characteristic trace\<close>



subsection \<open>Omitted bounds\<close>

text \<open>
  Claim C2 says that a call that omits \<open>xi_left\<close> or \<open>xi_right\<close> first derives the
  missing bound and then samples the solution on 1000 points between the bounds. The
  function does these in the other order: \<open>xi = linspace(xi_left, xi_right, 1000)\<close> runs on
  the arguments as passed, so the notebook's traffic-flow data \<open>0.1\<close> and \<open>0.6\<close> without
  bounds end in \<open>TypeError\<close> and nothing is returned.
\<close>

theorem nonconvex_solutions_omitted_bounds_raise:
  "nonconvex_solutions f_traffic (rnd (1/10)) (rnd (6/10)) None None = Inl TypeError"
  by (rule nonconvex_solutions_omitted)

text \<open>
  Claim C7 gives the values of the derived default bounds. No call reaches the statements
  that derive them: whenever a bound is omitted, whatever the flux, the data and the
  other bound, the call ends in \<open>TypeError\<close> at the sampling of \<open>xi\<close>.
\<close>

theorem nonconvex_solutions_derives_no_bounds:
  "nonconvex_solutions f q_left q_right None xi_right = Inl TypeError \<and>
   nonconvex_solutions f q_left q_right xi_left None = Inl TypeError"
  by (simp add: nonconvex_solutions_omitted)

end
